theory Spec2Isabelle
  imports Main
begin

section \<open>JavaScript values\<close>

text \<open>
  The exceptions that can cross the invalidator: a \<open>TypeError\<close> raised by the
  JavaScript run time itself (iterating \<open>undefined\<close>, calling a method on \<open>null\<close> or
  \<open>undefined\<close>) and whatever an evaluation callback throws on its own account.
\<close>

datatype error = TypeError string | Thrown string

text \<open>
  A JavaScript \<open>Set\<close> keeps its members in insertion order and without duplicates;
  iteration and the spread operator follow that order. It is a list here:
  \<open>Set_add\<close> is \<open>Set.prototype.add\<close>, \<open>Set_delete\<close> is \<open>Set.prototype.delete\<close>.
\<close>

definition Set_add :: "'a \<Rightarrow> 'a list \<Rightarrow> 'a list" where
  "Set_add x xs = (if x \<in> set xs then xs else xs @ [x])"

definition Set_delete :: "'a \<Rightarrow> 'a list \<Rightarrow> 'a list" where
  "Set_delete x xs = removeAll x xs"

section \<open>The tree host\<close>

text \<open>
  The DOM is not part of the repository: the facade reads it through properties of the
  node objects. The record below is that interface, taken as a parameter. Nodes are
  opaque handles of type \<open>'n\<close>.

  \<^item> \<open>nextSiblings d n\<close> is the chain \<open>n.nextSibling, n.nextSibling.nextSibling, ...\<close>
    up to the \<open>null\<close> that ends it (finite in a DOM tree), and \<open>previousSiblings\<close>
    likewise, nearest sibling first. Their heads are \<open>n.nextSibling\<close> and
    \<open>n.previousSibling\<close>.
  \<^item> \<open>getChildNodesMethod d n\<close> is what calling a method named \<open>getChildNodes\<close> on
    the node object yields, \<open>None\<close> when the object has no such method (DOM nodes have a
    \<open>childNodes\<close> property and no \<open>getChildNodes\<close> method).
  \<^item> \<open>contains d r n\<close> is \<open>r.contains(n)\<close>: \<open>n\<close> is \<open>r\<close> or a descendant of \<open>r\<close>.
  \<^item> \<open>getBucketsForNode\<close> is the function imported from the XPath library.
\<close>

record 'n dom =
  nodeType :: "'n \<Rightarrow> nat"
  parentNode :: "'n \<Rightarrow> 'n option"
  childNodes :: "'n \<Rightarrow> 'n list"
  nextSiblings :: "'n \<Rightarrow> 'n list"
  previousSiblings :: "'n \<Rightarrow> 'n list"
  attributes :: "'n \<Rightarrow> 'n list"
  getAttribute :: "'n \<Rightarrow> string \<Rightarrow> string option"
  value_of :: "'n \<Rightarrow> string"
  data :: "'n \<Rightarrow> string"
  getChildNodesMethod :: "'n \<Rightarrow> 'n list option"
  documentElement :: "'n \<Rightarrow> 'n"
  contains :: "'n \<Rightarrow> 'n \<Rightarrow> bool"
  getBucketsForNode :: "'n \<Rightarrow> string list"

definition ATTRIBUTE_NODE :: nat where
  "ATTRIBUTE_NODE = 2"

definition DOCUMENT_NODE :: nat where
  "DOCUMENT_NODE = 9"

definition nextSibling :: "'n dom \<Rightarrow> 'n \<Rightarrow> 'n option" where
  "nextSibling d n = (case nextSiblings d n of [] \<Rightarrow> None | x # _ \<Rightarrow> Some x)"

definition previousSibling :: "'n dom \<Rightarrow> 'n \<Rightarrow> 'n option" where
  "previousSibling d n = (case previousSiblings d n of [] \<Rightarrow> None | x # _ \<Rightarrow> Some x)"

text \<open>
  A bucket argument is a string or \<open>undefined\<close> (\<open>None\<close>). \<open>!bucket\<close> holds for
  \<open>undefined\<close> and for the empty string; \<open>buckets.includes(bucket)\<close> compares with
  the strings of the array, so it is false for \<open>undefined\<close>.
\<close>

type_synonym bucket = "string option"

definition falsy :: "bucket \<Rightarrow> bool" where
  "falsy bucket = (case bucket of None \<Rightarrow> True | Some b \<Rightarrow> b = [])"

definition Array_includes :: "string list \<Rightarrow> bucket \<Rightarrow> bool" where
  "Array_includes buckets bucket = (case bucket of None \<Rightarrow> False | Some b \<Rightarrow> b \<in> set buckets)"

section \<open>DependencyNotifyingDomFacade\<close>

text \<open>
  The facade is constructed with a callback \<open>onNodeTouched\<close>. A method takes the state
  \<open>'s\<close> the callback acts on and returns its JavaScript result with the state after
  the callbacks it made.
\<close>

definition getAllAttributes ::
  "'n dom \<Rightarrow> ('n \<Rightarrow> 's \<Rightarrow> 's) \<Rightarrow> 'n \<Rightarrow> 's \<Rightarrow> 'n list \<times> 's" where
  "getAllAttributes d onNodeTouched node s =
     (let s1 = onNodeTouched node s in (attributes d node, s1))"

definition getAttribute_facade ::
  "'n dom \<Rightarrow> ('n \<Rightarrow> 's \<Rightarrow> 's) \<Rightarrow> 'n \<Rightarrow> string \<Rightarrow> 's \<Rightarrow> string option \<times> 's" where
  "getAttribute_facade d onNodeTouched node attributeName s =
     (let s1 = onNodeTouched node s in (getAttribute d node attributeName, s1))"

definition getChildNodes ::
  "'n dom \<Rightarrow> ('n \<Rightarrow> 's \<Rightarrow> 's) \<Rightarrow> 'n \<Rightarrow> bucket \<Rightarrow> 's \<Rightarrow> 'n list \<times> 's" where
  "getChildNodes d onNodeTouched node bucket s =
     (let s1 = onNodeTouched node s;
          matchingNodes = filter
            (\<lambda>childNode. falsy bucket \<or> Array_includes (getBucketsForNode d childNode) bucket)
            (childNodes d node)
      in (matchingNodes, s1))"

definition getData ::
  "'n dom \<Rightarrow> ('n \<Rightarrow> 's \<Rightarrow> 's) \<Rightarrow> 'n \<Rightarrow> 's \<Rightarrow> string \<times> 's" where
  "getData d onNodeTouched node s =
     (let s1 = onNodeTouched node s
      in if nodeType d node = ATTRIBUTE_NODE then (value_of d node, s1)
         else (data d node, s1))"

fun firstChildLoop :: "'n dom \<Rightarrow> bucket \<Rightarrow> 'n list \<Rightarrow> 'n option" where
  "firstChildLoop d bucket [] = None"
| "firstChildLoop d bucket (child # rest) =
     (if falsy bucket \<or> Array_includes (getBucketsForNode d child) bucket then Some child
      else firstChildLoop d bucket rest)"

definition getFirstChild ::
  "'n dom \<Rightarrow> ('n \<Rightarrow> 's \<Rightarrow> 's) \<Rightarrow> 'n \<Rightarrow> bucket \<Rightarrow> 's \<Rightarrow> 'n option \<times> 's" where
  "getFirstChild d onNodeTouched node bucket s =
     (let s1 = onNodeTouched node s in (firstChildLoop d bucket (childNodes d node), s1))"

definition getLastChild ::
  "'n dom \<Rightarrow> ('n \<Rightarrow> 's \<Rightarrow> 's) \<Rightarrow> 'n \<Rightarrow> bucket \<Rightarrow> 's \<Rightarrow> (error + 'n option) \<times> 's" where
  "getLastChild d onNodeTouched node bucket s =
     (let s1 = onNodeTouched node s
      in case getChildNodesMethod d node of
           None \<Rightarrow> (Inl (TypeError ''node.getChildNodes is not a function''), s1)
         | Some nodes \<Rightarrow>
             (let matchingNodes = filter
                    (\<lambda>childNode. falsy bucket \<or> Array_includes (getBucketsForNode d childNode) bucket)
                    nodes
              in if matchingNodes = [] then (Inr None, s1)
                 else (Inr (Some (last matchingNodes)), s1)))"

fun nextSiblingLoop :: "'n dom \<Rightarrow> bucket \<Rightarrow> 'n list \<Rightarrow> 'n option" where
  "nextSiblingLoop d bucket [] = None"
| "nextSiblingLoop d bucket (sibling # rest) =
     (if \<not> falsy bucket \<and> \<not> Array_includes (getBucketsForNode d sibling) bucket
      then nextSiblingLoop d bucket rest
      else Some sibling)"

definition getNextSibling ::
  "'n dom \<Rightarrow> ('n \<Rightarrow> 's \<Rightarrow> 's) \<Rightarrow> 'n \<Rightarrow> bucket \<Rightarrow> 's \<Rightarrow> 'n option \<times> 's" where
  "getNextSibling d onNodeTouched node bucket s =
     (let s1 = (case parentNode d node of
                  Some p \<Rightarrow> onNodeTouched p s
                | None \<Rightarrow> s)
      in (nextSiblingLoop d bucket (nextSiblings d node), s1))"

definition getParentNode ::
  "'n dom \<Rightarrow> ('n \<Rightarrow> 's \<Rightarrow> 's) \<Rightarrow> 'n \<Rightarrow> 's \<Rightarrow> 'n option \<times> 's" where
  "getParentNode d onNodeTouched node s =
     (let s1 = (case parentNode d node of
                  Some p \<Rightarrow> onNodeTouched p s
                | None \<Rightarrow> s)
      in (parentNode d node, s1))"

fun previousSiblingLoop :: "'n dom \<Rightarrow> bucket \<Rightarrow> 'n list \<Rightarrow> 'n option" where
  "previousSiblingLoop d bucket [] = None"
| "previousSiblingLoop d bucket (sibling # rest) =
     (if \<not> Array_includes (getBucketsForNode d sibling) bucket
      then previousSiblingLoop d bucket rest
      else Some sibling)"

definition getPreviousSibling ::
  "'n dom \<Rightarrow> ('n \<Rightarrow> 's \<Rightarrow> 's) \<Rightarrow> 'n \<Rightarrow> bucket \<Rightarrow> 's \<Rightarrow> 'n option \<times> 's" where
  "getPreviousSibling d onNodeTouched node bucket s =
     (let s1 = (case parentNode d node of
                  Some p \<Rightarrow> onNodeTouched p s
                | None \<Rightarrow> s)
      in (previousSiblingLoop d bucket (previousSiblings d node), s1))"

section \<open>The MutationObserver of the host\<close>

text \<open>
  The observer is a platform object. Its options are the object literal the caller
  passes, kept as written: a list of property names with their values. The platform
  reads the members it knows (\<open>childList\<close>, \<open>attributes\<close>, \<open>characterData\<close>,
  \<open>subtree\<close>) and ignores every other property. A mutation of a node is queued for
  the observer when one of its registrations covers the node and asks for that kind of
  mutation; \<open>takeRecords\<close> hands the queue over and empties it.
\<close>

datatype mutationType = ChildList | Attributes | CharacterData

record 'n MutationRecord =
  target :: 'n
  kind :: mutationType

type_synonym MutationObserverInit = "(string \<times> bool) list"

record 'n MutationObserver =
  registered :: "('n \<times> MutationObserverInit) list"
  recordQueue :: "'n MutationRecord list"

definition isSet :: "MutationObserverInit \<Rightarrow> string \<Rightarrow> bool" where
  "isSet options name = (map_of options name = Some True)"

definition observe ::
  "'n \<Rightarrow> MutationObserverInit \<Rightarrow> 'n MutationObserver \<Rightarrow> error + 'n MutationObserver" where
  "observe root options mo =
     (if \<not> (isSet options ''childList'' \<or> isSet options ''attributes''
             \<or> isSet options ''characterData'')
      then Inl (TypeError ''The options object must set at least one of attributes, characterData, or childList to true'')
      else Inr (mo\<lparr>registered := (root, options) # filter (\<lambda>r. fst r \<noteq> root) (registered mo)\<rparr>))"

definition interested :: "'n dom \<Rightarrow> 'n MutationRecord \<Rightarrow> 'n \<times> MutationObserverInit \<Rightarrow> bool" where
  "interested d r registration =
     (case registration of (root, options) \<Rightarrow>
        (root = target r \<or> (isSet options ''subtree'' \<and> contains d root (target r)))
        \<and> (case kind r of
             ChildList \<Rightarrow> isSet options ''childList''
           | Attributes \<Rightarrow> isSet options ''attributes''
           | CharacterData \<Rightarrow> isSet options ''characterData''))"

definition queueMutationRecord ::
  "'n dom \<Rightarrow> 'n MutationRecord \<Rightarrow> 'n MutationObserver \<Rightarrow> 'n MutationObserver" where
  "queueMutationRecord d r mo =
     (if list_ex (interested d r) (registered mo)
      then mo\<lparr>recordQueue := recordQueue mo @ [r]\<rparr>
      else mo)"

definition takeRecords :: "'n MutationObserver \<Rightarrow> 'n MutationRecord list \<times> 'n MutationObserver" where
  "takeRecords mo = (recordQueue mo, mo\<lparr>recordQueue := []\<rparr>)"

section \<open>XPathInvalidator\<close>

text \<open>
  The two \<open>WeakMap\<close>s are maps to sets. Every call of \<open>runInInvalidationContext\<close>
  creates a \<open>Set\<close> of touched nodes and a facade whose callback adds to that set; the
  facade stays reachable through the \<open>_currentDomFacade\<close> field while the local variable of
  the call still names the set. The sets therefore live in a store, \<open>touchedNodes\<close>,
  addressed by the order of creation (\<open>nextRef\<close> is the next free address), and a facade is
  the address of its set. \<open>console\<close> collects the warnings written.
\<close>

datatype facade = DependencyNotifyingDomFacade nat

record ('c, 'n) XPathInvalidator =
  dependentComponentsByNode :: "'n \<rightharpoonup> 'c list"
  dependenciesByComponent :: "'c \<rightharpoonup> 'n list"
  queuedMutationRecords :: "'n MutationRecord list"
  mutationObserver :: "'n MutationObserver"
  currentDomFacade :: "facade option"
  touchedNodes :: "nat \<Rightarrow> 'n list"
  nextRef :: nat
  console :: "string list"

definition XPathInvalidator_new :: "('c, 'n) XPathInvalidator" where
  "XPathInvalidator_new =
     \<lparr>dependentComponentsByNode = Map.empty,
      dependenciesByComponent = Map.empty,
      queuedMutationRecords = [],
      mutationObserver = \<lparr>registered = [], recordQueue = []\<rparr>,
      currentDomFacade = None,
      touchedNodes = (\<lambda>a. []),
      nextRef = 0,
      console = []\<rparr>"

type_synonym ('c, 'n, 'a) call =
  "('c, 'n) XPathInvalidator \<Rightarrow> (error + 'a) \<times> ('c, 'n) XPathInvalidator"

text \<open>The callback given to the facade at construction: \<open>(node) => { touchedNodes.add(node); }\<close>.\<close>

definition onNodeTouched ::
  "facade \<Rightarrow> 'n \<Rightarrow> ('c, 'n) XPathInvalidator \<Rightarrow> ('c, 'n) XPathInvalidator" where
  "onNodeTouched f node s =
     (case f of DependencyNotifyingDomFacade a \<Rightarrow>
        s\<lparr>touchedNodes := (touchedNodes s)(a := Set_add node (touchedNodes s a))\<rparr>)"

definition getOrDefault :: "('k \<rightharpoonup> 'v list) \<Rightarrow> 'k \<Rightarrow> 'v list \<times> ('k \<rightharpoonup> 'v list)" where
  "getOrDefault m key =
     (case m key of
        Some v \<Rightarrow> (v, m)
      | None \<Rightarrow> ([], m(key \<mapsto> [])))"

text \<open>The observer's callback: every delivered record is pushed on the queue.\<close>

definition deliver :: "('c, 'n) XPathInvalidator \<Rightarrow> ('c, 'n) XPathInvalidator" where
  "deliver s =
     (case takeRecords (mutationObserver s) of (records, mo) \<Rightarrow>
        s\<lparr>mutationObserver := mo,
          queuedMutationRecords := queuedMutationRecords s @ records\<rparr>)"

text \<open>The tree host changes a node: the platform queues a record for the observer.\<close>

definition mutate ::
  "'n dom \<Rightarrow> 'n MutationRecord \<Rightarrow> ('c, 'n) XPathInvalidator \<Rightarrow> ('c, 'n) XPathInvalidator" where
  "mutate d r s = s\<lparr>mutationObserver := queueMutationRecord d r (mutationObserver s)\<rparr>"

datatype 'n instanceRoot = NotANode | ANode 'n

definition observeInstance :: "'n dom \<Rightarrow> 'n instanceRoot \<Rightarrow> ('c, 'n, unit) call" where
  "observeInstance d instanceRoot s =
     (case instanceRoot of
        NotANode \<Rightarrow> (Inr (), s)
      | ANode n \<Rightarrow>
          (let root = (if nodeType d n = DOCUMENT_NODE then documentElement d n else n)
           in case observe root
                     [(''childList'', True), (''attributes'', True), (''data'', True),
                      (''subtree'', True)]
                     (mutationObserver s) of
                Inl e \<Rightarrow> (Inl e, s)
              | Inr mo \<Rightarrow> (Inr (), s\<lparr>mutationObserver := mo\<rparr>)))"

fun removeComponentLoop :: "'c \<Rightarrow> 'n list \<Rightarrow> ('c, 'n, unit) call" where
  "removeComponentLoop component [] s = (Inr (), s)"
| "removeComponentLoop component (dependency # rest) s =
     (case dependentComponentsByNode s dependency of
        None \<Rightarrow> (Inl (TypeError ''Cannot read properties of undefined (reading delete)''), s)
      | Some siblingComponents \<Rightarrow>
          removeComponentLoop component rest
            (s\<lparr>dependentComponentsByNode :=
                 (dependentComponentsByNode s)(dependency \<mapsto> Set_delete component siblingComponents)\<rparr>))"

definition removeComponent :: "'c \<Rightarrow> ('c, 'n, unit) call" where
  "removeComponent component s =
     (case dependenciesByComponent s component of
        None \<Rightarrow> (Inl (TypeError ''undefined is not iterable''), s)
      | Some dependencies \<Rightarrow>
          (case removeComponentLoop component dependencies s of
             (Inl e, s1) \<Rightarrow> (Inl e, s1)
           | (Inr u, s1) \<Rightarrow>
               (Inr (), s1\<lparr>dependenciesByComponent := (dependenciesByComponent s1)(component := None)\<rparr>)))"

fun collectComponents ::
  "('n \<rightharpoonup> 'c list) \<Rightarrow> 'n MutationRecord list \<Rightarrow> 'c list \<Rightarrow> 'c list" where
  "collectComponents m [] components = components"
| "collectComponents m (record # rest) components =
     (case m (target record) of
        None \<Rightarrow> collectComponents m rest components
      | Some dependents \<Rightarrow> collectComponents m rest (components @ dependents))"

fun removeComponents :: "'c list \<Rightarrow> ('c, 'n, unit) call" where
  "removeComponents [] s = (Inr (), s)"
| "removeComponents (dependentComponent # rest) s =
     (case removeComponent dependentComponent s of
        (Inl e, s1) \<Rightarrow> (Inl e, s1)
      | (Inr u, s1) \<Rightarrow> removeComponents rest s1)"

definition getInvalidatedComponents :: "('c, 'n, 'c list) call" where
  "getInvalidatedComponents s =
     (case takeRecords (mutationObserver s) of (taken, mo) \<Rightarrow>
        (let mutationRecords = queuedMutationRecords s @ taken;
             s1 = s\<lparr>mutationObserver := mo, queuedMutationRecords := []\<rparr>;
             components = collectComponents (dependentComponentsByNode s1) mutationRecords []
         in case removeComponents components s1 of
              (Inl e, s2) \<Rightarrow> (Inl e, s2)
            | (Inr u, s2) \<Rightarrow> (Inr components, s2)))"

definition currentDomFacade_getter ::
  "('c, 'n) XPathInvalidator \<Rightarrow> facade option \<times> ('c, 'n) XPathInvalidator" where
  "currentDomFacade_getter s =
     (case currentDomFacade s of
        None \<Rightarrow> (None, s\<lparr>console := console s @ [''XPath outside of dependency tracking!'']\<rparr>)
      | Some f \<Rightarrow> (Some f, s))"

fun mergeLoop ::
  "'c \<Rightarrow> 'n list \<Rightarrow> 'n list \<Rightarrow> ('c, 'n) XPathInvalidator \<Rightarrow> ('c, 'n) XPathInvalidator" where
  "mergeLoop component [] otherDependencies s = s"
| "mergeLoop component (touchedNode # rest) otherDependencies s =
     (case getOrDefault (dependentComponentsByNode s) touchedNode of
        (otherComponents, m) \<Rightarrow>
          (let s1 = s\<lparr>dependentComponentsByNode :=
                       m(touchedNode \<mapsto> Set_add component otherComponents)\<rparr>;
               otherDependencies1 = Set_add touchedNode otherDependencies;
               s2 = s1\<lparr>dependenciesByComponent :=
                        (dependenciesByComponent s1)(component \<mapsto> otherDependencies1)\<rparr>
           in mergeLoop component rest otherDependencies1 s2))"

definition runInInvalidationContext ::
  "'c \<Rightarrow> ('c, 'n, 'a) call \<Rightarrow> ('c, 'n, unit) call" where
  "runInInvalidationContext component callback s =
     (let a = nextRef s;
          s1 = s\<lparr>touchedNodes := (touchedNodes s)(a := []),
                 nextRef := Suc a,
                 currentDomFacade := Some (DependencyNotifyingDomFacade a)\<rparr>
      in case callback s1 of
           (Inl e, s2) \<Rightarrow> (Inl e, s2)
         | (Inr v, s2) \<Rightarrow>
             (case getOrDefault (dependenciesByComponent s2) component of
                (otherDependencies, m) \<Rightarrow>
                  (let s3 = mergeLoop component (touchedNodes s2 a) otherDependencies
                              (s2\<lparr>dependenciesByComponent := m\<rparr>)
                   in (Inr (), s3\<lparr>currentDomFacade := None\<rparr>))))"

text \<open>
  Modelled from the spec: the evaluator that performs the reads is not in the repository
  (nothing under the sources calls a method on what the getter returns). Section 4.3 of
  the spec says how it reads: it obtains the facade with \<open>currentFacade()\<close> and reads the
  tree through it; when the getter returned the empty value, "reads still succeed against
  the raw tree but produce no tracking". A read is given by its facade method, a function
  of the callback to notify; with a facade it is run with the facade's callback, without
  one it is run on the tree with a callback that records nothing.
\<close>

definition readThroughCurrentFacade ::
  "(('n \<Rightarrow> ('c, 'n) XPathInvalidator \<Rightarrow> ('c, 'n) XPathInvalidator)
      \<Rightarrow> ('c, 'n) XPathInvalidator \<Rightarrow> 'a \<times> ('c, 'n) XPathInvalidator)
   \<Rightarrow> ('c, 'n, 'a) call" where
  "readThroughCurrentFacade method s =
     (case currentDomFacade_getter s of
        (None, s1) \<Rightarrow> (case method (\<lambda>node u. u) s1 of (v, s2) \<Rightarrow> (Inr v, s2))
      | (Some f, s1) \<Rightarrow> (case method (onNodeTouched f) s1 of (v, s2) \<Rightarrow> (Inr v, s2)))"

section \<open>The dependency graph as sets\<close>

text \<open>
  The spec reads the two indices as set-valued functions: a key without an entry has the
  empty set.
\<close>

definition dependenciesOf :: "('c, 'n) XPathInvalidator \<Rightarrow> 'c \<Rightarrow> 'n set" where
  "dependenciesOf s c = (case dependenciesByComponent s c of None \<Rightarrow> {} | Some ns \<Rightarrow> set ns)"

definition dependentsOf :: "('c, 'n) XPathInvalidator \<Rightarrow> 'n \<Rightarrow> 'c set" where
  "dependentsOf s n = (case dependentComponentsByNode s n of None \<Rightarrow> {} | Some cs \<Rightarrow> set cs)"

definition symmetric :: "('c, 'n) XPathInvalidator \<Rightarrow> bool" where
  "symmetric s = (\<forall>c n. n \<in> dependenciesOf s c \<longleftrightarrow> c \<in> dependentsOf s n)"

text \<open>
  The state in which \<open>runInInvalidationContext\<close> starts its callback: a new empty set
  of touched nodes, and a facade over it in the \<open>_currentDomFacade\<close> field.
\<close>

definition installed :: "('c, 'n) XPathInvalidator \<Rightarrow> ('c, 'n) XPathInvalidator" where
  "installed s =
     s\<lparr>touchedNodes := (touchedNodes s)(nextRef s := []),
       nextRef := Suc (nextRef s),
       currentDomFacade := Some (DependencyNotifyingDomFacade (nextRef s))\<rparr>"

section \<open>An example tree and example evaluators\<close>

text \<open>
  A document (node 0) whose root element (node 1) has three children: an element
  (node 2) with one attribute \<open>id="x"\<close> (the attribute node is 5), a text node (node 3)
  with data \<open>hello\<close>, and an element (node 4). Components are named by strings.
\<close>

definition exampleTree :: "nat dom" where
  "exampleTree =
     \<lparr>nodeType = (\<lambda>n. if n = 0 then 9 else if n = 3 then 3 else if n = 5 then 2 else 1),
      parentNode = (\<lambda>n. if n = 1 then Some 0
                         else if n = 2 \<or> n = 3 \<or> n = 4 then Some 1 else None),
      childNodes = (\<lambda>n. if n = 0 then [1] else if n = 1 then [2, 3, 4] else []),
      nextSiblings = (\<lambda>n. if n = 2 then [3, 4] else if n = 3 then [4] else []),
      previousSiblings = (\<lambda>n. if n = 4 then [3, 2] else if n = 3 then [2] else []),
      attributes = (\<lambda>n. if n = 2 then [5] else []),
      getAttribute = (\<lambda>n name. if n = 2 \<and> name = ''id'' then Some ''x'' else None),
      value_of = (\<lambda>n. if n = 5 then ''x'' else []),
      data = (\<lambda>n. if n = 3 then ''hello'' else []),
      getChildNodesMethod = (\<lambda>n. None),
      documentElement = (\<lambda>n. 1),
      contains = (\<lambda>r n. r = n \<or> (r = 0 \<and> n < 5) \<or> (r = 1 \<and> 0 < n \<and> n < 5)),
      getBucketsForNode = (\<lambda>n. if n = 3 then [''type-3''] else [''type-1''])\<rparr>"

definition newInvalidator :: "(string, nat) XPathInvalidator" where
  "newInvalidator = XPathInvalidator_new"

text \<open>An evaluator that reads the data of node \<open>n\<close>.\<close>

definition readData :: "nat \<Rightarrow> (string, nat, string) call" where
  "readData n = readThroughCurrentFacade (\<lambda>onTouched. getData exampleTree onTouched n)"

text \<open>An evaluator that reads the attribute \<open>name\<close> of node \<open>n\<close>.\<close>

definition readAttribute :: "nat \<Rightarrow> string \<Rightarrow> (string, nat, string option) call" where
  "readAttribute n name =
     readThroughCurrentFacade (\<lambda>onTouched. getAttribute_facade exampleTree onTouched n name)"

text \<open>An evaluator that reads the data of node 3 and then throws an error of its own.\<close>

definition readThenThrow :: "(string, nat, unit) call" where
  "readThenThrow s =
     (case readData 3 s of
        (Inl e, s1) \<Rightarrow> (Inl e, s1)
      | (Inr v, s1) \<Rightarrow> (Inl (Thrown ''evaluation failed''), s1))"

text \<open>A callback that records every call, in order.\<close>

definition touchLog :: "'n \<Rightarrow> 'n list \<Rightarrow> 'n list" where
  "touchLog node log = log @ [node]"

text \<open>The calls of \<open>onNodeTouched\<close> a facade method makes, in order.\<close>

definition touchesOf ::
  "(('n \<Rightarrow> 'n list \<Rightarrow> 'n list) \<Rightarrow> 'n list \<Rightarrow> 'a \<times> 'n list) \<Rightarrow> 'n list" where
  "touchesOf method = snd (method touchLog [])"

text \<open>
  Three states of the example: the document is observed and component \<open>A\<close> has read
  the data of the text node; the same with \<open>A\<close> reading the attribute of node 2
  instead; and \<open>A\<close> depending on the text node, \<open>B\<close> on node 2, with one attribute
  change of node 2 pending.
\<close>

definition trackedText :: "(string, nat) XPathInvalidator" where
  "trackedText =
     snd (runInInvalidationContext ''A'' (readData 3)
            (snd (observeInstance exampleTree (ANode 0) newInvalidator)))"

definition trackedAttribute :: "(string, nat) XPathInvalidator" where
  "trackedAttribute =
     snd (runInInvalidationContext ''A'' (readAttribute 2 ''id'')
            (snd (observeInstance exampleTree (ANode 0) newInvalidator)))"

definition trackedTwo :: "(string, nat) XPathInvalidator" where
  "trackedTwo =
     mutate exampleTree \<lparr>target = 2, kind = Attributes\<rparr>
       (snd (runInInvalidationContext ''B'' (readAttribute 2 ''id'') trackedText))"

section \<open>Set and loop lemmas\<close>

lemma set_Set_add [simp]: "set (Set_add x xs) = insert x (set xs)"
  by (auto simp: Set_add_def)

lemma set_Set_delete [simp]: "set (Set_delete x xs) = set xs - {x}"
  by (auto simp: Set_delete_def)

lemma Set_delete_twice [simp]: "Set_delete x (Set_delete x xs) = Set_delete x xs"
  by (simp add: Set_delete_def)

lemma removeComponentLoop_returns:
  "\<forall>n\<in>set ns. dependentComponentsByNode s n \<noteq> None \<Longrightarrow>
   removeComponentLoop c ns s =
     (Inr (), s\<lparr>dependentComponentsByNode :=
                  (\<lambda>n. if n \<in> set ns then map_option (Set_delete c) (dependentComponentsByNode s n)
                       else dependentComponentsByNode s n)\<rparr>)"
proof (induction ns arbitrary: s)
  case Nil
  then show ?case by simp
next
  case (Cons n ns)
  from Cons.prems obtain cs where cs: "dependentComponentsByNode s n = Some cs"
    by auto
  let ?s1 = "s\<lparr>dependentComponentsByNode := (dependentComponentsByNode s)(n \<mapsto> Set_delete c cs)\<rparr>"
  have "\<forall>m\<in>set ns. dependentComponentsByNode ?s1 m \<noteq> None"
    using Cons.prems by simp
  from Cons.IH [OF this] cs show ?case
    by (auto intro!: arg_cong2 [where f = "\<lambda>f r. r\<lparr>dependentComponentsByNode := f\<rparr>"] simp: fun_eq_iff)
qed

lemma removeComponent_returns:
  assumes "dependenciesByComponent s c = Some ns"
    and "\<forall>n\<in>set ns. dependentComponentsByNode s n \<noteq> None"
  shows "removeComponent c s =
     (Inr (), s\<lparr>dependentComponentsByNode :=
                  (\<lambda>n. if n \<in> set ns then map_option (Set_delete c) (dependentComponentsByNode s n)
                       else dependentComponentsByNode s n),
                dependenciesByComponent := (dependenciesByComponent s)(c := None)\<rparr>)"
  using assms by (simp add: removeComponent_def removeComponentLoop_returns)

lemma removeComponent_faults:
  "dependenciesByComponent s c = None \<Longrightarrow>
   removeComponent c s = (Inl (TypeError ''undefined is not iterable''), s)"
  by (simp add: removeComponent_def)

lemma symmetric_entry:
  "symmetric s \<Longrightarrow> dependenciesByComponent s c = Some ns \<Longrightarrow> n \<in> set ns \<Longrightarrow>
   dependentComponentsByNode s n \<noteq> None"
  by (auto simp: symmetric_def dependenciesOf_def dependentsOf_def split: option.splits)

lemma removeComponent_symmetric:
  assumes "symmetric s"
  shows "symmetric (snd (removeComponent c s))"
proof (cases "dependenciesByComponent s c")
  case None
  then show ?thesis using assms by (simp add: removeComponent_faults)
next
  case (Some ns)
  have ex: "\<forall>n\<in>set ns. dependentComponentsByNode s n \<noteq> None"
    using assms Some by (blast dest: symmetric_entry)
  have ns: "\<And>n. (n \<in> set ns) = (c \<in> dependentsOf s n)"
    using assms Some unfolding symmetric_def dependenciesOf_def by (metis option.simps(5))
  show ?thesis
    unfolding removeComponent_returns [OF Some ex]
    using assms Some ns
    by (auto simp: symmetric_def dependenciesOf_def dependentsOf_def split: option.splits)
qed


lemma removeComponents_symmetric:
  "symmetric s \<Longrightarrow> symmetric (snd (removeComponents cs s))"
proof (induction cs arbitrary: s)
  case Nil
  then show ?case by simp
next
  case (Cons c cs)
  obtain r s1 where r: "removeComponent c s = (r, s1)"
    by (cases "removeComponent c s")
  have "symmetric s1"
    using removeComponent_symmetric [OF Cons.prems, of c] r by simp
  then show ?case
    using r Cons.IH [of s1] by (cases r) simp_all
qed

lemma getInvalidatedComponents_symmetric:
  assumes "symmetric s"
  shows "symmetric (snd (getInvalidatedComponents s))"
proof -
  let ?s1 = "s\<lparr>mutationObserver := (mutationObserver s)\<lparr>recordQueue := []\<rparr>,
               queuedMutationRecords := []\<rparr>"
  let ?cs = "collectComponents (dependentComponentsByNode ?s1)
               (queuedMutationRecords s @ recordQueue (mutationObserver s)) []"
  have "symmetric ?s1"
    using assms by (simp add: symmetric_def dependenciesOf_def dependentsOf_def)
  then have "symmetric (snd (removeComponents ?cs ?s1))"
    by (rule removeComponents_symmetric)
  then show ?thesis
    by (auto simp: getInvalidatedComponents_def takeRecords_def Let_def split: prod.split sum.split)
qed


lemma mergeLoop_Cons:
  "mergeLoop c (t # ts) od s =
     mergeLoop c ts (Set_add t od)
       (s\<lparr>dependentComponentsByNode :=
            (dependentComponentsByNode s)
              (t \<mapsto> Set_add c (case dependentComponentsByNode s t of None \<Rightarrow> [] | Some cs \<Rightarrow> cs)),
          dependenciesByComponent := (dependenciesByComponent s)(c \<mapsto> Set_add t od)\<rparr>)"
  by (simp add: getOrDefault_def Let_def split: option.splits)

lemma mergeLoop_dependencies:
  "dependenciesByComponent s c = Some od \<Longrightarrow>
   dependenciesOf (mergeLoop c ts od s) c' =
     (if c' = c then set od \<union> set ts else dependenciesOf s c')"
proof (induction ts arbitrary: od s)
  case Nil
  then show ?case by (simp add: dependenciesOf_def)
next
  case (Cons t ts)
  show ?case
    unfolding mergeLoop_Cons
    by (subst Cons.IH) (simp_all add: dependenciesOf_def)
qed

lemma mergeLoop_dependents:
  "dependentsOf (mergeLoop c ts od s) n =
     (if n \<in> set ts then insert c (dependentsOf s n) else dependentsOf s n)"
proof (induction ts arbitrary: od s)
  case Nil
  then show ?case by simp
next
  case (Cons t ts)
  show ?case
    unfolding mergeLoop_Cons Cons.IH
    by (auto simp: dependentsOf_def split: option.splits)
qed

lemma mergeLoop_frame:
  "currentDomFacade (mergeLoop c ts od s) = currentDomFacade s
   \<and> touchedNodes (mergeLoop c ts od s) = touchedNodes s
   \<and> nextRef (mergeLoop c ts od s) = nextRef s
   \<and> queuedMutationRecords (mergeLoop c ts od s) = queuedMutationRecords s
   \<and> mutationObserver (mergeLoop c ts od s) = mutationObserver s
   \<and> console (mergeLoop c ts od s) = console s"
proof (induction ts arbitrary: od s)
  case Nil
  then show ?case by simp
next
  case (Cons t ts)
  show ?case
    unfolding mergeLoop_Cons by (simp add: Cons.IH)
qed


lemma runInInvalidationContext_abrupt:
  "callback (installed s) = (Inl e, s2) \<Longrightarrow>
   runInInvalidationContext c callback s = (Inl e, s2)"
  by (simp add: runInInvalidationContext_def installed_def Let_def)

lemma getOrDefault_fst:
  "fst (getOrDefault m k) = (case m k of None \<Rightarrow> [] | Some v \<Rightarrow> v)"
  by (simp add: getOrDefault_def split: option.split)

lemma getOrDefault_snd:
  "snd (getOrDefault m k) k' = (if k' = k then Some (case m k of None \<Rightarrow> [] | Some v \<Rightarrow> v) else m k')"
  by (simp add: getOrDefault_def split: option.split)

lemma runInInvalidationContext_normal:
  assumes "callback (installed s) = (Inr v, s2)"
  shows "\<exists>s'. runInInvalidationContext c callback s = (Inr (), s')
     \<and> currentDomFacade s' = None
     \<and> (\<forall>c'. dependenciesOf s' c' =
            (if c' = c then dependenciesOf s2 c \<union> set (touchedNodes s2 (nextRef s))
             else dependenciesOf s2 c'))
     \<and> (\<forall>n. dependentsOf s' n =
            (if n \<in> set (touchedNodes s2 (nextRef s)) then insert c (dependentsOf s2 n)
             else dependentsOf s2 n))"
proof -
  let ?od = "fst (getOrDefault (dependenciesByComponent s2) c)"
  let ?m = "snd (getOrDefault (dependenciesByComponent s2) c)"
  let ?s2 = "s2\<lparr>dependenciesByComponent := ?m\<rparr>"
  let ?s3 = "mergeLoop c (touchedNodes s2 (nextRef s)) ?od ?s2"
  have run: "runInInvalidationContext c callback s = (Inr (), ?s3\<lparr>currentDomFacade := None\<rparr>)"
    using assms
    by (simp add: runInInvalidationContext_def installed_def Let_def split: prod.split)
  have od: "dependenciesByComponent ?s2 c = Some ?od"
    by (simp add: getOrDefault_fst getOrDefault_snd)
  have deps2: "\<And>c'. dependenciesOf ?s2 c' = dependenciesOf s2 c'"
    by (simp add: dependenciesOf_def getOrDefault_snd split: option.split)
  have od_set: "set ?od = dependenciesOf s2 c"
    by (simp add: dependenciesOf_def getOrDefault_fst split: option.split)
  have dpts2: "\<And>n. dependentsOf ?s2 n = dependentsOf s2 n"
    by (simp add: dependentsOf_def)
  have a: "\<And>c'. dependenciesOf (?s3\<lparr>currentDomFacade := None\<rparr>) c' = dependenciesOf ?s3 c'"
    by (simp add: dependenciesOf_def)
  have b: "\<And>n. dependentsOf (?s3\<lparr>currentDomFacade := None\<rparr>) n = dependentsOf ?s3 n"
    by (simp add: dependentsOf_def)
  show ?thesis
    unfolding run
    by (simp add: a b mergeLoop_dependencies [OF od] mergeLoop_dependents deps2 dpts2 od_set)
qed

lemma runInInvalidationContext_symmetric:
  assumes "symmetric (snd (callback (installed s)))"
  shows "symmetric (snd (runInInvalidationContext c callback s))"
proof (cases "callback (installed s)")
  case (Pair r s2)
  show ?thesis
  proof (cases r)
    case (Inl e)
    then show ?thesis
      using Pair assms by (simp add: runInInvalidationContext_abrupt)
  next
    case (Inr v)
    with Pair have cb: "callback (installed s) = (Inr v, s2)" by simp
    from runInInvalidationContext_normal [of callback s v s2 c, OF cb] obtain s' where
      s': "runInInvalidationContext c callback s = (Inr (), s')"
      and deps: "\<And>c'. dependenciesOf s' c' =
            (if c' = c then dependenciesOf s2 c \<union> set (touchedNodes s2 (nextRef s))
             else dependenciesOf s2 c')"
      and dpts: "\<And>n. dependentsOf s' n =
            (if n \<in> set (touchedNodes s2 (nextRef s)) then insert c (dependentsOf s2 n)
             else dependentsOf s2 n)"
      by blast
    have "symmetric s2" using assms Pair by simp
    then have "symmetric s'"
      unfolding symmetric_def deps dpts by auto
    then show ?thesis using s' by simp
  qed
qed

section \<open>Eviction and draining\<close>

lemma removeComponentLoop_dependencies:
  "dependenciesByComponent (snd (removeComponentLoop c ns s)) = dependenciesByComponent s"
  by (induction ns arbitrary: s) (simp_all split: option.split)

lemma removeComponent_dependencies:
  "dependenciesByComponent (snd (removeComponent c s)) =
     (case fst (removeComponent c s) of
        Inl e \<Rightarrow> dependenciesByComponent s
      | Inr u \<Rightarrow> (dependenciesByComponent s)(c := None))"
proof (cases "dependenciesByComponent s c")
  case None
  then show ?thesis by (simp add: removeComponent_faults)
next
  case (Some ns)
  obtain r s1 where loop: "removeComponentLoop c ns s = (r, s1)"
    by (cases "removeComponentLoop c ns s")
  have "dependenciesByComponent s1 = dependenciesByComponent s"
    using removeComponentLoop_dependencies [of c ns s] loop by simp
  then show ?thesis
    using Some loop by (cases r) (simp_all add: removeComponent_def)
qed

lemma removeComponent_Inr_recorded:
  "fst (removeComponent c s) = Inr u \<Longrightarrow> dependenciesByComponent s c \<noteq> None"
  by (cases "dependenciesByComponent s c") (simp_all add: removeComponent_faults)

lemma removeComponents_unrecorded:
  "dependenciesByComponent s c = None \<Longrightarrow>
   dependenciesByComponent (snd (removeComponents cs s)) c = None"
proof (induction cs arbitrary: s)
  case Nil
  then show ?case by simp
next
  case (Cons c' cs)
  obtain r s1 where rc: "removeComponent c' s = (r, s1)"
    by (cases "removeComponent c' s")
  have "dependenciesByComponent s1 c = None"
    using removeComponent_dependencies [of c' s] rc Cons.prems by (cases r) simp_all
  then show ?case
    using rc Cons.IH [of s1] by (cases r) simp_all
qed

lemma removeComponents_Inr_distinct:
  "fst (removeComponents cs s) = Inr u \<Longrightarrow>
   distinct cs \<and> (\<forall>c\<in>set cs. dependenciesByComponent s c \<noteq> None
                           \<and> dependenciesByComponent (snd (removeComponents cs s)) c = None)"
proof (induction cs arbitrary: s)
  case Nil
  then show ?case by simp
next
  case (Cons c cs)
  obtain r s1 where rc: "removeComponent c s = (r, s1)"
    by (cases "removeComponent c s")
  show ?case
  proof (cases r)
    case (Inl e)
    with rc Cons.prems show ?thesis by simp
  next
    case (Inr v)
    have rest: "removeComponents (c # cs) s = removeComponents cs s1"
      using rc Inr by simp
    have deps1: "dependenciesByComponent s1 = (dependenciesByComponent s)(c := None)"
      using removeComponent_dependencies [of c s] rc Inr by simp
    have recorded: "dependenciesByComponent s c \<noteq> None"
      using removeComponent_Inr_recorded [of c s] rc Inr by simp
    have ih: "distinct cs \<and> (\<forall>c'\<in>set cs. dependenciesByComponent s1 c' \<noteq> None
                 \<and> dependenciesByComponent (snd (removeComponents cs s1)) c' = None)"
      using Cons.IH [of s1] Cons.prems rest by simp
    have notin: "c \<notin> set cs"
      using ih deps1 by auto
    have gone: "dependenciesByComponent (snd (removeComponents cs s1)) c = None"
      using removeComponents_unrecorded [of s1 c cs] deps1 by simp
    show ?thesis
      unfolding rest using ih notin recorded deps1 gone by (auto split: if_splits)
  qed
qed


lemma removeComponents_returns:
  "symmetric s \<Longrightarrow> distinct cs \<Longrightarrow> \<forall>c\<in>set cs. dependenciesByComponent s c \<noteq> None \<Longrightarrow>
   fst (removeComponents cs s) = Inr ()"
proof (induction cs arbitrary: s)
  case Nil
  then show ?case by simp
next
  case (Cons c cs)
  from Cons.prems obtain ns where ns: "dependenciesByComponent s c = Some ns"
    by auto
  have ex: "\<forall>n\<in>set ns. dependentComponentsByNode s n \<noteq> None"
    using Cons.prems(1) ns by (blast dest: symmetric_entry)
  obtain s1 where rc: "removeComponent c s = (Inr (), s1)"
    using removeComponent_returns [OF ns ex] by simp
  have sym1: "symmetric s1"
    using removeComponent_symmetric [OF Cons.prems(1), of c] rc by simp
  have deps1: "dependenciesByComponent s1 = (dependenciesByComponent s)(c := None)"
    using removeComponent_dependencies [of c s] rc by simp
  have "\<forall>c'\<in>set cs. dependenciesByComponent s1 c' \<noteq> None"
    using Cons.prems(2,3) deps1 by auto
  then have "fst (removeComponents cs s1) = Inr ()"
    using Cons.IH [OF sym1] Cons.prems(2) by simp
  then show ?case using rc by simp
qed

lemma set_collectComponents:
  "set (collectComponents m records components) =
     set components \<union> (\<Union>r\<in>set records. case m (target r) of None \<Rightarrow> {} | Some cs \<Rightarrow> set cs)"
  by (induction records arbitrary: components) (auto split: option.splits)

lemma collectComponents_member:
  "c \<in> set (collectComponents m records components) \<Longrightarrow>
   c \<in> set components \<or> (\<exists>n cs. m n = Some cs \<and> c \<in> set cs)"
proof (induction records arbitrary: components)
  case Nil
  then show ?case by simp
next
  case (Cons r records)
  show ?case
  proof (cases "m (target r)")
    case None
    then show ?thesis using Cons by simp
  next
    case (Some cs)
    then have "c \<in> set (components @ cs) \<or> (\<exists>n cs. m n = Some cs \<and> c \<in> set cs)"
      using Cons.IH [of "components @ cs"] Cons.prems by simp
    then show ?thesis using Some by auto
  qed
qed

lemma getInvalidatedComponents_result:
  "getInvalidatedComponents s =
     (let components = collectComponents (dependentComponentsByNode s)
                         (queuedMutationRecords s @ recordQueue (mutationObserver s)) [];
          cleared = s\<lparr>mutationObserver := (mutationObserver s)\<lparr>recordQueue := []\<rparr>,
                      queuedMutationRecords := []\<rparr>
      in case fst (removeComponents components cleared) of
           Inl e \<Rightarrow> (Inl e, snd (removeComponents components cleared))
         | Inr u \<Rightarrow> (Inr components, snd (removeComponents components cleared)))"
  by (simp add: getInvalidatedComponents_def takeRecords_def Let_def split: prod.split sum.split)

lemma drain_returns_iff_distinct:
  assumes "symmetric s"
  shows "(\<exists>cs. fst (getInvalidatedComponents s) = Inr cs) \<longleftrightarrow>
         distinct (collectComponents (dependentComponentsByNode s)
                     (queuedMutationRecords s @ recordQueue (mutationObserver s)) [])"
proof -
  let ?cs = "collectComponents (dependentComponentsByNode s)
               (queuedMutationRecords s @ recordQueue (mutationObserver s)) []"
  let ?s1 = "s\<lparr>mutationObserver := (mutationObserver s)\<lparr>recordQueue := []\<rparr>,
               queuedMutationRecords := []\<rparr>"
  have sym1: "symmetric ?s1"
    using assms by (simp add: symmetric_def dependenciesOf_def dependentsOf_def)
  have recorded: "\<forall>c\<in>set ?cs. dependenciesByComponent ?s1 c \<noteq> None"
  proof
    fix c assume "c \<in> set ?cs"
    then obtain n cs where "dependentComponentsByNode s n = Some cs" "c \<in> set cs"
      by (auto dest: collectComponents_member)
    then have "c \<in> dependentsOf s n"
      by (simp add: dependentsOf_def)
    then have "n \<in> dependenciesOf s c"
      using assms by (simp add: symmetric_def)
    then show "dependenciesByComponent ?s1 c \<noteq> None"
      by (auto simp: dependenciesOf_def split: option.splits)
  qed
  show ?thesis
  proof
    assume "\<exists>cs. fst (getInvalidatedComponents s) = Inr cs"
    then have "fst (removeComponents ?cs ?s1) = Inr ()"
      by (auto simp: getInvalidatedComponents_result Let_def split: sum.splits)
    then show "distinct ?cs"
      by (simp add: removeComponents_Inr_distinct)
  next
    assume "distinct ?cs"
    then have "fst (removeComponents ?cs ?s1) = Inr ()"
      using removeComponents_returns [OF sym1 _ recorded] by simp
    then show "\<exists>cs. fst (getInvalidatedComponents s) = Inr cs"
      by (simp add: getInvalidatedComponents_result Let_def)
  qed
qed

lemma drain_returned_components:
  assumes "fst (getInvalidatedComponents s) = Inr cs"
  shows "set cs = (\<Union>r\<in>set (queuedMutationRecords s @ recordQueue (mutationObserver s)).
                     dependentsOf s (target r))
     \<and> distinct cs
     \<and> (\<forall>c\<in>set cs. dependenciesByComponent (snd (getInvalidatedComponents s)) c = None)"
proof -
  let ?cs = "collectComponents (dependentComponentsByNode s)
               (queuedMutationRecords s @ recordQueue (mutationObserver s)) []"
  let ?s1 = "s\<lparr>mutationObserver := (mutationObserver s)\<lparr>recordQueue := []\<rparr>,
               queuedMutationRecords := []\<rparr>"
  have ok: "fst (removeComponents ?cs ?s1) = Inr ()" and cs: "cs = ?cs"
    using assms by (auto simp: getInvalidatedComponents_result Let_def split: sum.splits)
  have snd: "snd (getInvalidatedComponents s) = snd (removeComponents ?cs ?s1)"
    by (simp add: getInvalidatedComponents_result Let_def split: sum.split)
  have "set ?cs = (\<Union>r\<in>set (queuedMutationRecords s @ recordQueue (mutationObserver s)).
                     dependentsOf s (target r))"
    by (simp add: set_collectComponents dependentsOf_def)
  then show ?thesis
    unfolding cs snd using removeComponents_Inr_distinct [OF ok] by simp
qed

section \<open>Operations that keep the graph\<close>

lemma symmetric_graph_eq:
  assumes "dependenciesByComponent s' = dependenciesByComponent s"
    and "dependentComponentsByNode s' = dependentComponentsByNode s"
    and "symmetric s"
  shows "symmetric s'"
  using assms by (simp add: symmetric_def dependenciesOf_def dependentsOf_def)

lemma readData_symmetric: "symmetric t \<Longrightarrow> symmetric (snd (readData n t))"
  by (rule symmetric_graph_eq [of _ t])
     (simp_all add: readData_def readThroughCurrentFacade_def currentDomFacade_getter_def
        getData_def onNodeTouched_def Let_def split: option.split facade.split)

lemma symmetric_new: "symmetric XPathInvalidator_new"
  by (simp add: symmetric_def dependenciesOf_def dependentsOf_def XPathInvalidator_new_def)

lemma sibling_reads_touch:
  "snd (getNextSibling d t node bucket s) = (case parentNode d node of None \<Rightarrow> s | Some p \<Rightarrow> t p s)"
  "snd (getPreviousSibling d t node bucket s) = (case parentNode d node of None \<Rightarrow> s | Some p \<Rightarrow> t p s)"
  "snd (getParentNode d t node s) = (case parentNode d node of None \<Rightarrow> s | Some p \<Rightarrow> t p s)"
  by (simp_all add: getNextSibling_def getPreviousSibling_def getParentNode_def split: option.split)

section \<open>Facade reads\<close>

lemma previousSiblingLoop_without_bucket: "previousSiblingLoop d None siblings = None"
  by (induction siblings) (simp_all add: Array_includes_def)

lemma getPreviousSibling_without_bucket: "fst (getPreviousSibling d t node None s) = None"
  by (simp add: getPreviousSibling_def previousSiblingLoop_without_bucket)

lemma getNextSibling_without_bucket: "fst (getNextSibling d t node None s) = nextSibling d node"
  by (cases "nextSiblings d node") (simp_all add: getNextSibling_def nextSibling_def falsy_def)

lemma getLastChild_without_method:
  "getChildNodesMethod d node = None \<Longrightarrow>
   fst (getLastChild d t node bucket s) = Inl (TypeError ''node.getChildNodes is not a function'')"
  by (simp add: getLastChild_def)

lemma facade_reads_delegate:
  "fst (getAllAttributes d t node s) = attributes d node"
  "fst (getAttribute_facade d t node name s) = getAttribute d node name"
  "fst (getChildNodes d t node None s) = childNodes d node"
  "fst (getData d t node s) = (if nodeType d node = ATTRIBUTE_NODE then value_of d node else data d node)"
  "fst (getParentNode d t node s) = parentNode d node"
  by (simp_all add: getAllAttributes_def getAttribute_facade_def getChildNodes_def getData_def
        getParentNode_def falsy_def)

section \<open>Evaluation of the example scenarios\<close>

lemmas invalidator_defs = newInvalidator_def XPathInvalidator_new_def installed_def
  removeComponent_def runInInvalidationContext_def getInvalidatedComponents_def
  currentDomFacade_getter_def readThroughCurrentFacade_def onNodeTouched_def getOrDefault_def
  observeInstance_def deliver_def mutate_def Set_add_def Set_delete_def Let_def

lemmas host_defs = exampleTree_def readData_def readAttribute_def readThenThrow_def
  getData_def getAttribute_facade_def ATTRIBUTE_NODE_def DOCUMENT_NODE_def
  observe_def takeRecords_def queueMutationRecord_def interested_def isSet_def

section \<open>C1: the exits of a tracked evaluation\<close>

text \<open>
  C1, as stated: if \<open>evaluate\<close> raises during \<open>runInContext(c, evaluate)\<close>, the slot is
  cleared and the nodes touched up to the failure are merged before the error reaches the
  caller. \<open>runInInvalidationContext\<close> has no handler around \<open>callback()\<close>: the merge
  loop and the assignment of \<open>null\<close> come after the call and are skipped when it
  raises. With an evaluator that reads the text node and then throws, the error reaches
  the caller while the field still holds the facade, node 3 is in the facade's set of
  touched nodes and neither index has an entry for it.
\<close>

theorem runInInvalidationContext_raise_counterexample:
  "fst (runInInvalidationContext ''A'' readThenThrow newInvalidator)
     = Inl (Thrown ''evaluation failed'')
   \<and> currentDomFacade (snd (runInInvalidationContext ''A'' readThenThrow newInvalidator))
     = Some (DependencyNotifyingDomFacade 0)
   \<and> touchedNodes (snd (runInInvalidationContext ''A'' readThenThrow newInvalidator)) 0 = [3]
   \<and> dependenciesByComponent (snd (runInInvalidationContext ''A'' readThenThrow newInvalidator)) ''A''
     = None
   \<and> dependentComponentsByNode (snd (runInInvalidationContext ''A'' readThenThrow newInvalidator)) 3
     = None"
  by (simp add: invalidator_defs host_defs)

text \<open>
  C1, as amended: if \<open>evaluate\<close> returns normally, \<open>runInContext\<close> returns normally,
  the slot is empty afterwards, every node in the facade's touch set is a dependency of
  \<open>c\<close> with the reverse edge recorded, and the dependencies \<open>c\<close> had before are kept.
  If \<open>evaluate\<close> raises, the error reaches the caller at once with the invalidator as
  \<open>evaluate\<close> left it: nothing is merged and the slot is not cleared.
\<close>

theorem runInInvalidationContext_exit_paths:
  "(callback (installed s) = (Inr v, s2) \<longrightarrow>
      fst (runInInvalidationContext c callback s) = Inr ()
      \<and> currentDomFacade (snd (runInInvalidationContext c callback s)) = None
      \<and> (\<forall>n \<in> set (touchedNodes s2 (nextRef s)).
            n \<in> dependenciesOf (snd (runInInvalidationContext c callback s)) c
            \<and> c \<in> dependentsOf (snd (runInInvalidationContext c callback s)) n)
      \<and> dependenciesOf s2 c \<subseteq> dependenciesOf (snd (runInInvalidationContext c callback s)) c)
   \<and> (callback (installed s) = (Inl e, s3) \<longrightarrow>
        runInInvalidationContext c callback s = (Inl e, s3))"
proof (intro conjI impI)
  assume "callback (installed s) = (Inl e, s3)"
  then show "runInInvalidationContext c callback s = (Inl e, s3)"
    by (rule runInInvalidationContext_abrupt)
next
  assume cb: "callback (installed s) = (Inr v, s2)"
  from runInInvalidationContext_normal [of callback s v s2 c, OF cb] obtain s' where
    s': "runInInvalidationContext c callback s = (Inr (), s')"
    and slot: "currentDomFacade s' = None"
    and deps: "\<And>c'. dependenciesOf s' c' =
          (if c' = c then dependenciesOf s2 c \<union> set (touchedNodes s2 (nextRef s))
           else dependenciesOf s2 c')"
    and dpts: "\<And>n. dependentsOf s' n =
          (if n \<in> set (touchedNodes s2 (nextRef s)) then insert c (dependentsOf s2 n)
           else dependentsOf s2 n)"
    by blast
  show "fst (runInInvalidationContext c callback s) = Inr ()"
    and "currentDomFacade (snd (runInInvalidationContext c callback s)) = None"
    and "\<forall>n \<in> set (touchedNodes s2 (nextRef s)).
            n \<in> dependenciesOf (snd (runInInvalidationContext c callback s)) c
            \<and> c \<in> dependentsOf (snd (runInInvalidationContext c callback s)) n"
    and "dependenciesOf s2 c \<subseteq> dependenciesOf (snd (runInInvalidationContext c callback s)) c"
    using s' slot by (simp_all add: deps dpts)
qed

text \<open>
  The theorem at the example: the evaluator that reads the text node returns, and the
  one that reads it and throws raises.
\<close>

theorem runInInvalidationContext_exit_paths_witness:
  "readData 3 (installed newInvalidator)
     = (Inr ''hello'', snd (readData 3 (installed newInvalidator)))
   \<and> touchedNodes (snd (readData 3 (installed newInvalidator))) 0 = [3]
   \<and> fst (runInInvalidationContext ''A'' (readData 3) newInvalidator) = Inr ()
   \<and> currentDomFacade (snd (runInInvalidationContext ''A'' (readData 3) newInvalidator)) = None
   \<and> 3 \<in> dependenciesOf (snd (runInInvalidationContext ''A'' (readData 3) newInvalidator)) ''A''
   \<and> ''A'' \<in> dependentsOf (snd (runInInvalidationContext ''A'' (readData 3) newInvalidator)) 3
   \<and> readThenThrow (installed newInvalidator)
     = (Inl (Thrown ''evaluation failed''), snd (readThenThrow (installed newInvalidator)))
   \<and> runInInvalidationContext ''A'' readThenThrow newInvalidator
     = (Inl (Thrown ''evaluation failed''), snd (readThenThrow (installed newInvalidator)))"
proof -
  have normal: "readData 3 (installed newInvalidator)
     = (Inr ''hello'', snd (readData 3 (installed newInvalidator)))"
    by (simp add: invalidator_defs host_defs)
  have touched: "touchedNodes (snd (readData 3 (installed newInvalidator))) 0 = [3]"
    by (simp add: invalidator_defs host_defs)
  have ref: "nextRef newInvalidator = 0"
    by (simp add: invalidator_defs)
  have abrupt: "readThenThrow (installed newInvalidator)
     = (Inl (Thrown ''evaluation failed''), snd (readThenThrow (installed newInvalidator)))"
    by (simp add: invalidator_defs host_defs)
  show ?thesis
    using normal touched abrupt ref
      runInInvalidationContext_exit_paths [of "readData 3" newInvalidator "''hello''"
        "snd (readData 3 (installed newInvalidator))" "''A''"]
      runInInvalidationContext_exit_paths [of readThenThrow newInvalidator _ _ "''A''"
        "Thrown ''evaluation failed''" "snd (readThenThrow (installed newInvalidator))"]
    by simp
qed

section \<open>C2: symmetry of the two indices\<close>

text \<open>
  C2: \<open>n \<in> dependenciesOf(c)\<close> if and only if \<open>c \<in> dependentsOf(n)\<close>, for all
  components and nodes, and every operation keeps it so. From a symmetric state every
  operation of the invalidator ends in a symmetric state, whether it returns or raises:
  \<open>runInInvalidationContext\<close> (for a callback that itself keeps the graph symmetric, as
  one that only reads through the facade or calls the invalidator does),
  \<open>getInvalidatedComponents\<close>, \<open>removeComponent\<close>, and the operations that never
  write the graph. A new invalidator is symmetric (\<open>symmetric_new\<close>).
\<close>

theorem symmetry_preserved:
  assumes "symmetric s"
    and "\<forall>t. symmetric t \<longrightarrow> symmetric (snd (callback t))"
  shows "symmetric (snd (runInInvalidationContext c callback s))
     \<and> symmetric (snd (getInvalidatedComponents s))
     \<and> symmetric (snd (removeComponent c s))
     \<and> symmetric (snd (observeInstance d root s))
     \<and> symmetric (mutate d r s)
     \<and> symmetric (deliver s)
     \<and> symmetric (snd (currentDomFacade_getter s))"
proof -
  have "symmetric (installed s)"
    by (rule symmetric_graph_eq [OF _ _ assms(1)]) (simp_all add: installed_def)
  with assms(2) have "symmetric (snd (callback (installed s)))"
    by blast
  then have run: "symmetric (snd (runInInvalidationContext c callback s))"
    by (rule runInInvalidationContext_symmetric)
  have obs: "symmetric (snd (observeInstance d root s))"
    by (rule symmetric_graph_eq [OF _ _ assms(1)])
       (simp_all add: observeInstance_def Let_def split: instanceRoot.split sum.split)
  have mut: "symmetric (mutate d r s)"
    by (rule symmetric_graph_eq [OF _ _ assms(1)]) (simp_all add: mutate_def)
  have del: "symmetric (deliver s)"
    by (rule symmetric_graph_eq [OF _ _ assms(1)]) (simp_all add: deliver_def split: prod.split)
  have get: "symmetric (snd (currentDomFacade_getter s))"
    by (rule symmetric_graph_eq [OF _ _ assms(1)])
       (simp_all add: currentDomFacade_getter_def split: option.split)
  show ?thesis
    using run obs mut del get getInvalidatedComponents_symmetric [OF assms(1)]
      removeComponent_symmetric [OF assms(1), of c]
    by simp
qed

text \<open>
  The theorem along a run of the example: observe, a tracked evaluation, then an
  eviction and a drain, each from the state the run has reached.
\<close>

theorem symmetry_preserved_witness:
  "symmetric newInvalidator
   \<and> symmetric (snd (observeInstance exampleTree (ANode 0) newInvalidator))
   \<and> symmetric trackedText
   \<and> dependenciesByComponent trackedText ''A'' = Some [3]
   \<and> symmetric (snd (removeComponent ''A'' trackedText))
   \<and> symmetric (snd (getInvalidatedComponents
                        (mutate exampleTree \<lparr>target = 3, kind = Attributes\<rparr> trackedText)))"
proof -
  have cb: "\<forall>t. symmetric t \<longrightarrow> symmetric (snd (readData 3 t))"
    by (simp add: readData_symmetric)
  have new: "symmetric newInvalidator"
    by (simp add: newInvalidator_def symmetric_new)
  have obs: "symmetric (snd (observeInstance exampleTree (ANode 0) newInvalidator))"
    using symmetry_preserved [OF new cb, of "''A''" exampleTree "ANode 0"] by simp
  have tracked: "symmetric trackedText"
    unfolding trackedText_def using symmetry_preserved [OF obs cb, of "''A''"] by simp
  have mutated: "symmetric (mutate exampleTree \<lparr>target = 3, kind = Attributes\<rparr> trackedText)"
    using symmetry_preserved [OF tracked cb, of _ exampleTree _ "\<lparr>target = 3, kind = Attributes\<rparr>"]
    by simp
  have deps: "dependenciesByComponent trackedText ''A'' = Some [3]"
    by (simp add: trackedText_def invalidator_defs host_defs)
  show ?thesis
    using new obs tracked deps symmetry_preserved [OF tracked cb, of "''A''"]
      symmetry_preserved [OF mutated cb, of "''A''"]
    by simp
qed

section \<open>C3: draining\<close>

text \<open>
  C3: \<open>drainInvalidated()\<close> returns the deduplicated union of the dependents of the
  records' targets, evicts them, and completes without fault for every sequence of
  records. \<open>getInvalidatedComponents\<close> collects the dependents in an array, once per
  record, and calls \<open>removeComponent\<close> on every element. A component that occurs twice
  is removed at its first occurrence; at the second, \<open>removeComponent\<close> iterates an
  absent entry and raises. With \<open>A\<close> depending on node 2, one attribute change of node
  2 drains to \<open>[A]\<close>; two changes of node 2 before the drain make the call raise.
  (\<open>drain_returns_iff_distinct\<close> and \<open>drain_returned_components\<close> give the general
  picture: from a symmetric state the call returns exactly when no component is collected
  twice, and what it returns is then what the claim says.)
\<close>

theorem getInvalidatedComponents_twice_mutated_raises:
  "dependentComponentsByNode trackedAttribute 2 = Some [''A'']
   \<and> fst (getInvalidatedComponents
            (mutate exampleTree \<lparr>target = 2, kind = Attributes\<rparr> trackedAttribute)) = Inr [''A'']
   \<and> queuedMutationRecords
        (deliver (mutate exampleTree \<lparr>target = 2, kind = Attributes\<rparr>
                   (mutate exampleTree \<lparr>target = 2, kind = Attributes\<rparr> trackedAttribute)))
       = [\<lparr>target = 2, kind = Attributes\<rparr>, \<lparr>target = 2, kind = Attributes\<rparr>]
   \<and> fst (getInvalidatedComponents
            (deliver (mutate exampleTree \<lparr>target = 2, kind = Attributes\<rparr>
                       (mutate exampleTree \<lparr>target = 2, kind = Attributes\<rparr> trackedAttribute))))
       = Inl (TypeError ''undefined is not iterable'')
   \<and> fst (getInvalidatedComponents
            (mutate exampleTree \<lparr>target = 2, kind = Attributes\<rparr>
              (mutate exampleTree \<lparr>target = 2, kind = Attributes\<rparr> trackedAttribute)))
       = Inl (TypeError ''undefined is not iterable'')"
  by (simp add: trackedAttribute_def invalidator_defs host_defs)

section \<open>C4: sibling and parent reads\<close>

text \<open>
  C4: \<open>nextSibling(node, bucket?)\<close>, \<open>previousSibling(node, bucket?)\<close> and
  \<open>parent(node)\<close> record a touch on \<open>node\<close>'s parent and none on \<open>node\<close> itself; without
  a parent they record no touch. The calls of \<open>onNodeTouched\<close> each of the three methods
  makes are exactly the parent, once, or none; \<open>node\<close> is not among them, a node not
  being its own parent.
\<close>

theorem parent_redirection:
  assumes "parentNode d node \<noteq> Some node"
  shows "touchesOf (\<lambda>t. getNextSibling d t node bucket)
           = (case parentNode d node of None \<Rightarrow> [] | Some p \<Rightarrow> [p])
    \<and> touchesOf (\<lambda>t. getPreviousSibling d t node bucket)
           = (case parentNode d node of None \<Rightarrow> [] | Some p \<Rightarrow> [p])
    \<and> touchesOf (\<lambda>t. getParentNode d t node)
           = (case parentNode d node of None \<Rightarrow> [] | Some p \<Rightarrow> [p])
    \<and> node \<notin> set (touchesOf (\<lambda>t. getNextSibling d t node bucket))
    \<and> node \<notin> set (touchesOf (\<lambda>t. getPreviousSibling d t node bucket))
    \<and> node \<notin> set (touchesOf (\<lambda>t. getParentNode d t node))"
  using assms
  by (simp add: touchesOf_def sibling_reads_touch touchLog_def split: option.split)

text \<open>The theorem at the text node, whose parent is node 1, and at the document, which has none.\<close>

theorem parent_redirection_witness:
  "parentNode exampleTree 3 \<noteq> Some 3
   \<and> touchesOf (\<lambda>t. getNextSibling exampleTree t 3 None) = [1]
   \<and> touchesOf (\<lambda>t. getPreviousSibling exampleTree t 3 (Some ''type-1'')) = [1]
   \<and> touchesOf (\<lambda>t. getParentNode exampleTree t 3) = [1]
   \<and> parentNode exampleTree 0 \<noteq> Some 0
   \<and> touchesOf (\<lambda>t. getNextSibling exampleTree t 0 None) = []
   \<and> touchesOf (\<lambda>t. getPreviousSibling exampleTree t 0 None) = []
   \<and> touchesOf (\<lambda>t. getParentNode exampleTree t 0) = []"
  using parent_redirection [of exampleTree 3 None]
    parent_redirection [of exampleTree 3 "Some ''type-1''"]
    parent_redirection [of exampleTree 0 None]
  by (simp add: exampleTree_def)

section \<open>The options of the observer\<close>

text \<open>
  Whatever the tree, the registration \<open>observeInstance\<close> makes asks for changes of child
  lists and of attributes in the subtree, and never for changes of character data.
\<close>

lemma observeInstance_options:
  "interested d \<lparr>target = n, kind = k\<rparr>
     (root, [(''childList'', True), (''attributes'', True), (''data'', True), (''subtree'', True)])
   = ((root = n \<or> contains d root n) \<and> k \<noteq> CharacterData)"
  by (cases k) (simp_all add: interested_def isSet_def)

section \<open>C5: the end-to-end scenario\<close>

text \<open>
  C5: after \<open>observe(root)\<close> and a tracked read of the data of \<open>textNode\<close> by \<open>A\<close>, a
  change of the text node's data followed by a drain returns \<open>{A}\<close>. \<open>observeInstance\<close>
  passes the options \<open>childList\<close>, \<open>attributes\<close>, \<open>data\<close> and \<open>subtree\<close>. The
  observer's option for text changes is named \<open>characterData\<close>; \<open>data\<close> is not an
  option it knows, so the change of the text node is never queued and the drain returns
  the empty array while \<open>A\<close> still depends on the text node. The second drain returns the
  empty array as well.
\<close>

theorem text_change_not_observed:
  "fst (runInInvalidationContext ''A'' (readData 3)
            (snd (observeInstance exampleTree (ANode 0) newInvalidator))) = Inr ()
   \<and> dependenciesByComponent trackedText ''A'' = Some [3]
   \<and> dependentComponentsByNode trackedText 3 = Some [''A'']
   \<and> recordQueue (mutationObserver
        (mutate exampleTree \<lparr>target = 3, kind = CharacterData\<rparr> trackedText)) = []
   \<and> fst (getInvalidatedComponents
            (mutate exampleTree \<lparr>target = 3, kind = CharacterData\<rparr> trackedText)) = Inr []
   \<and> fst (getInvalidatedComponents
            (deliver (mutate exampleTree \<lparr>target = 3, kind = CharacterData\<rparr> trackedText)))
       = Inr []
   \<and> fst (getInvalidatedComponents (snd (getInvalidatedComponents
            (mutate exampleTree \<lparr>target = 3, kind = CharacterData\<rparr> trackedText)))) = Inr []"
  by (simp add: trackedText_def invalidator_defs host_defs)

section \<open>C6: eviction of a component without recorded dependencies\<close>

text \<open>
  C6: for a component with no entry in \<open>dependenciesOf\<close>, \<open>evict\<close> completes without
  fault and leaves the graph unchanged. \<open>removeComponent\<close> iterates the result of
  \<open>_dependenciesByComponent.get(component)\<close> without looking whether the entry
  exists: on a new invalidator the call raises a \<open>TypeError\<close>. The state is left as it
  was, but the call does not complete.
\<close>

theorem removeComponent_unrecorded_raises:
  "dependenciesByComponent newInvalidator ''A'' = None
   \<and> removeComponent ''A'' newInvalidator
       = (Inl (TypeError ''undefined is not iterable''), newInvalidator)"
  by (simp add: invalidator_defs)

section \<open>C7: the values the facade returns\<close>

text \<open>
  C7: every read of the facade returns what the tree itself yields; in particular
  \<open>previousSibling(node)\<close> without a bucket returns the previous sibling and
  \<open>lastChild(node, bucket?)\<close> the last matching child. \<open>getPreviousSibling\<close> skips
  every sibling whose buckets do not include the bucket argument and, other than
  \<open>getNextSibling\<close>, does not first look whether a bucket was given: without one it
  skips them all. Node 4 of the example has the previous sibling 3, and the facade returns
  \<open>null\<close>. \<open>getLastChild\<close> calls \<open>node.getChildNodes()\<close>, which a DOM node does not
  have (\<open>getChildNodes\<close> of the facade reads the property \<open>childNodes\<close>): for node 1,
  with three children, it raises.
\<close>

theorem previous_sibling_and_last_child_reads_diverge:
  "previousSibling exampleTree 4 = Some 3
   \<and> fst (getPreviousSibling exampleTree (onNodeTouched (DependencyNotifyingDomFacade 0)) 4 None
            (installed newInvalidator)) = None
   \<and> nextSibling exampleTree 2 = Some 3
   \<and> fst (getNextSibling exampleTree (onNodeTouched (DependencyNotifyingDomFacade 0)) 2 None
            (installed newInvalidator)) = Some 3
   \<and> childNodes exampleTree 1 = [2, 3, 4]
   \<and> fst (getLastChild exampleTree (onNodeTouched (DependencyNotifyingDomFacade 0)) 1 None
            (installed newInvalidator))
       = Inl (TypeError ''node.getChildNodes is not a function'')"
  by (simp add: previousSibling_def getPreviousSibling_def nextSibling_def getNextSibling_def
        getLastChild_def Array_includes_def falsy_def exampleTree_def)

section \<open>C8: the frame of a drain\<close>

text \<open>
  C8: component \<open>A\<close> depends only on node \<open>p\<close>, component \<open>B\<close> only on a different
  node \<open>q\<close>, whose only dependent it is; one mutation of \<open>q\<close> is pending. Then the drain
  returns exactly \<open>B\<close>, \<open>B\<close> is evicted, and \<open>A\<close> is as before: still tracked, with
  \<open>p\<close> as its only dependency and the dependents of \<open>p\<close> unchanged.
\<close>

theorem precise_invalidation:
  assumes A: "dependenciesByComponent s A = Some [p]"
    and B: "dependenciesByComponent s B = Some [q]"
    and q: "dependentComponentsByNode s q = Some [B]"
    and pq: "p \<noteq> q"
    and pending: "queuedMutationRecords s @ recordQueue (mutationObserver s) = [r]"
    and r: "target r = q"
  shows "fst (getInvalidatedComponents s) = Inr [B]
     \<and> dependenciesByComponent (snd (getInvalidatedComponents s)) A = Some [p]
     \<and> dependentComponentsByNode (snd (getInvalidatedComponents s)) p = dependentComponentsByNode s p
     \<and> dependenciesByComponent (snd (getInvalidatedComponents s)) B = None
     \<and> dependentComponentsByNode (snd (getInvalidatedComponents s)) q = Some []"
proof -
  let ?s1 = "s\<lparr>mutationObserver := (mutationObserver s)\<lparr>recordQueue := []\<rparr>,
               queuedMutationRecords := []\<rparr>"
  have AB: "A \<noteq> B" using A B pq by auto
  have B1: "dependenciesByComponent ?s1 B = Some [q]" using B by simp
  have q1: "\<forall>n\<in>set [q]. dependentComponentsByNode ?s1 n \<noteq> None" using q by simp
  have collect: "collectComponents (dependentComponentsByNode s)
                   (queuedMutationRecords s @ recordQueue (mutationObserver s)) [] = [B]"
    unfolding pending using q r by simp
  have drain: "getInvalidatedComponents s =
     (Inr [B], ?s1\<lparr>dependentComponentsByNode :=
                  (\<lambda>n. if n \<in> set [q] then map_option (Set_delete B) (dependentComponentsByNode ?s1 n)
                       else dependentComponentsByNode ?s1 n),
                dependenciesByComponent := (dependenciesByComponent ?s1)(B := None)\<rparr>)"
    using removeComponent_returns [OF B1 q1]
    by (simp add: getInvalidatedComponents_def takeRecords_def Let_def collect)
  show ?thesis
    unfolding drain
    using A q pq AB
    by (simp add: Set_delete_def)
qed

text \<open>
  The theorem at the example: \<open>A\<close> has read the text node, \<open>B\<close> the attribute of node
  2, and the attribute of node 2 has changed once.
\<close>

theorem precise_invalidation_witness:
  "dependenciesByComponent trackedTwo ''A'' = Some [3]
   \<and> dependenciesByComponent trackedTwo ''B'' = Some [2]
   \<and> dependentComponentsByNode trackedTwo 2 = Some [''B'']
   \<and> queuedMutationRecords trackedTwo @ recordQueue (mutationObserver trackedTwo)
        = [\<lparr>target = 2, kind = Attributes\<rparr>]
   \<and> fst (getInvalidatedComponents trackedTwo) = Inr [''B'']
   \<and> dependenciesByComponent (snd (getInvalidatedComponents trackedTwo)) ''A'' = Some [3]
   \<and> dependentComponentsByNode (snd (getInvalidatedComponents trackedTwo)) 3 = Some [''A'']
   \<and> dependenciesByComponent (snd (getInvalidatedComponents trackedTwo)) ''B'' = None"
proof -
  have A: "dependenciesByComponent trackedTwo ''A'' = Some [3]"
    and B: "dependenciesByComponent trackedTwo ''B'' = Some [2]"
    and q: "dependentComponentsByNode trackedTwo 2 = Some [''B'']"
    and p: "dependentComponentsByNode trackedTwo 3 = Some [''A'']"
    and pending: "queuedMutationRecords trackedTwo @ recordQueue (mutationObserver trackedTwo)
        = [\<lparr>target = 2, kind = Attributes\<rparr>]"
    by (simp_all add: trackedTwo_def trackedText_def invalidator_defs host_defs)
  have r: "target \<lparr>target = 2 :: nat, kind = Attributes\<rparr> = 2" by simp
  have pq: "(3::nat) \<noteq> 2" by simp
  show ?thesis
    using precise_invalidation [OF A B q pq pending r] A B q p pending by simp
qed

section \<open>C9: the facade outside a tracked evaluation\<close>



section \<open>C10: a tracked evaluation inside another\<close>

text \<open>
  C10, as stated: \<open>runInContext\<close> is guarded against reentrancy and fails when a context
  is already active, so that an inner call cannot overwrite the slot.
  \<open>runInInvalidationContext\<close> assigns the field without reading it. Called while the
  facade of an outer evaluation is installed, it returns normally, has recorded the inner
  read for \<open>B\<close>, and leaves the field \<open>null\<close>: the outer facade is no longer installed
  and its set of touched nodes is still empty.
\<close>

theorem runInInvalidationContext_reentrant_counterexample:
  "currentDomFacade (installed newInvalidator) = Some (DependencyNotifyingDomFacade 0)
   \<and> fst (runInInvalidationContext ''B'' (readData 3) (installed newInvalidator)) = Inr ()
   \<and> currentDomFacade (snd (runInInvalidationContext ''B'' (readData 3) (installed newInvalidator)))
       = None
   \<and> touchedNodes (snd (runInInvalidationContext ''B'' (readData 3) (installed newInvalidator))) 0
       = []
   \<and> dependenciesByComponent
        (snd (runInInvalidationContext ''B'' (readData 3) (installed newInvalidator))) ''B''
       = Some [3]"
  by (simp add: invalidator_defs host_defs)

text \<open>
  C10, as amended: \<open>runInContext\<close> has no reentrancy guard. Whatever the slot holds
  when it is invoked, it installs a fresh facade with an empty touch set over it and runs
  \<open>evaluate\<close>; it fails only if \<open>evaluate\<close> fails, and when \<open>evaluate\<close> returns it
  leaves the slot empty.
\<close>

theorem runInInvalidationContext_unguarded:
  "fst (runInInvalidationContext c callback s)
     = (case fst (callback (installed s)) of Inl e \<Rightarrow> Inl e | Inr v \<Rightarrow> Inr ())
   \<and> currentDomFacade (installed s) = Some (DependencyNotifyingDomFacade (nextRef s))
   \<and> touchedNodes (installed s) (nextRef s) = []
   \<and> (fst (callback (installed s)) = Inr v \<longrightarrow>
        currentDomFacade (snd (runInInvalidationContext c callback s)) = None)"
proof -
  obtain r s2 where cb: "callback (installed s) = (r, s2)"
    by (cases "callback (installed s)")
  show ?thesis
  proof (cases r)
    case (Inl e)
    with cb show ?thesis
      by (simp add: runInInvalidationContext_abrupt) (simp add: installed_def)
  next
    case (Inr w)
    with cb have "callback (installed s) = (Inr w, s2)" by simp
    from runInInvalidationContext_normal [of callback s w s2 c, OF this] cb Inr
    show ?thesis
      by (auto simp: installed_def)
  qed
qed

text \<open>The theorem for a call made while the facade of an outer evaluation is installed.\<close>

theorem runInInvalidationContext_unguarded_witness:
  "currentDomFacade (installed newInvalidator) \<noteq> None
   \<and> fst (readAttribute 2 ''id'' (installed (installed newInvalidator))) = Inr (Some ''x'')
   \<and> fst (runInInvalidationContext ''B'' (readAttribute 2 ''id'') (installed newInvalidator))
       = Inr ()
   \<and> currentDomFacade (installed (installed newInvalidator))
       = Some (DependencyNotifyingDomFacade 1)
   \<and> currentDomFacade (snd (runInInvalidationContext ''B'' (readAttribute 2 ''id'')
                               (installed newInvalidator))) = None"
proof -
  have cb: "fst (readAttribute 2 ''id'' (installed (installed newInvalidator))) = Inr (Some ''x'')"
    by (simp add: invalidator_defs host_defs)
  have ref: "nextRef (installed newInvalidator) = 1"
    by (simp add: invalidator_defs)
  have slot: "currentDomFacade (installed newInvalidator) \<noteq> None"
    by (simp add: invalidator_defs)
  show ?thesis
    using cb ref slot
      runInInvalidationContext_unguarded [of "''B''" "readAttribute 2 ''id''"
        "installed newInvalidator" "Some ''x''"]
    by simp
qed

end
